theory Spec2Isabelle
  imports Complex_Main "HOL-Library.Stream" "HOL-Library.Multiset" "HOL-Library.Product_Lexorder"
begin

section \<open>Call centre simulation (CallCenterSimulation.py)\<close>

text \<open>
  The program drives a SimPy discrete-event simulation. Virtual times are Python floats;
  they are modelled as real numbers. SimPy's scheduler, processes and \<open>Resource\<close> and the
  functions of Python's \<open>random\<close> and \<open>statistics\<close> modules that the program calls are
  library code; they are modelled here after their implementation, each definition saying
  which library function it stands for.
\<close>

subsection \<open>Constants\<close>

definition RANDOM_SEED :: int where
  "RANDOM_SEED = 42"

definition SIM_HOURS :: real where
  "SIM_HOURS = 8"

definition MEAN_SERVICE_MINUTES :: real where
  "MEAN_SERVICE_MINUTES = 5"

subsection \<open>Exceptions\<close>

datatype error = ValueError | ZeroDivisionError | StatisticsError | RuntimeError

subsection \<open>The random source\<close>

text \<open>
  The state of Python's global generator is the stream of values it will produce. An element
  of the stream is the value of \<open>-log(1.0 - random())\<close>, the unit-rate exponential variate
  that \<open>random.expovariate\<close> computes before dividing by its argument; since \<open>random()\<close> lies
  in \<open>[0, 1)\<close> these values are never negative (and are \<open>0\<close> when \<open>random()\<close> is \<open>0.0\<close>).
  \<open>random.seed(a)\<close> replaces the state by the stream of seed \<open>a\<close>, whatever the state was;
  the map from seeds to streams (the Mersenne Twister) is a parameter.
\<close>

type_synonym rng = "real stream"

definition seed :: "(int \<Rightarrow> rng) \<Rightarrow> int \<Rightarrow> rng \<Rightarrow> rng" where
  "seed variates a g = variates a"

definition expovariate :: "real \<Rightarrow> rng \<Rightarrow> error + real \<times> rng" where
  "expovariate lambd g =
     (if lambd = 0 then Inl ZeroDivisionError else Inr (shd g / lambd, stl g))"

subsection \<open>Events and the simulation state\<close>

text \<open>
  Every SimPy event the program creates is one of the following; the event's callbacks are
  what \<open>fire\<close> below does with it. \<open>InitSetup\<close>, \<open>InitCustomer i\<close> and \<open>InitServe i\<close> are the
  \<open>Initialize\<close> events that start the processes \<open>setup\<close>, \<open>customer\<close> (with \<open>customer_id = i\<close>)
  and \<open>serve\<close>; \<open>SetupTimeout\<close> and \<open>ServeTimeout i\<close> are the timeouts of lines 54 and 37;
  \<open>RequestEv i\<close> is the granted request of customer \<open>i\<close> (line 42); \<open>ReleaseEv i\<close> is the
  release made when customer \<open>i\<close> leaves the \<open>with\<close> block; \<open>SetupDone\<close>, \<open>ServeDone i\<close> and
  \<open>CustomerDone i\<close> are the process events scheduled when a generator returns; \<open>Until\<close>
  is the event \<open>env.run(until=...)\<close> schedules to stop the run.
\<close>

datatype event =
    Until
  | InitSetup
  | SetupTimeout
  | SetupDone
  | InitCustomer nat
  | RequestEv nat
  | InitServe nat
  | ServeTimeout nat
  | ServeDone nat
  | ReleaseEv nat
  | CustomerDone nat

definition URGENT :: nat where
  "URGENT = 0"

definition NORMAL :: nat where
  "NORMAL = 1"

text \<open>
  An entry of the event heap is the tuple \<open>(time, priority, eid, event)\<close>; Python compares
  the tuples lexicographically and \<open>eid\<close> is unique, so the heap is kept as the list of its
  entries in the order \<open>heappop\<close> returns them.
\<close>

type_synonym entry = "(real \<times> nat \<times> nat) \<times> event"

record resource =
  capacity :: int
  users :: "nat list"
  put_queue :: "nat list"

record call_center =
  agent :: resource
  total_busy_time :: real
  last_event_time :: real
  busy_times :: "(real \<times> real) list"

text \<open>
  The state of one replication: the environment (\<open>now\<close>, \<open>queue\<close>, \<open>eid\<close>), the global
  generator, the call centre, the list \<open>wait_times\<close>, and the local variables of the
  suspended generators: \<open>customer_id\<close> of \<open>setup\<close>, and \<open>arrival_time\<close> and \<open>start_busy\<close>
  of each \<open>customer\<close>, indexed by the customer's id.
\<close>

record sim =
  now :: real
  queue :: "entry list"
  eid :: nat
  rng :: rng
  cc :: call_center
  wait_times :: "real list"
  customer_id :: nat
  arrival_time :: "nat \<Rightarrow> real"
  start_busy :: "nat \<Rightarrow> real"

subsection \<open>SimPy: scheduling, timeouts, the resource\<close>

text \<open>\<open>Environment.schedule\<close>: push \<open>(now + delay, priority, next(eid), event)\<close>.\<close>

definition schedule :: "event \<Rightarrow> nat \<Rightarrow> real \<Rightarrow> sim \<Rightarrow> sim" where
  "schedule ev priority delay s =
     s\<lparr>queue := insort_key fst ((now s + delay, priority, eid s), ev) (queue s),
       eid := eid s + 1\<rparr>"

text \<open>\<open>Timeout(env, delay)\<close>: a negative delay raises \<open>ValueError\<close>.\<close>

definition timeout :: "real \<Rightarrow> event \<Rightarrow> sim \<Rightarrow> error + sim" where
  "timeout delay ev s =
     (if delay < 0 then Inl ValueError else Inr (schedule ev NORMAL delay s))"

text \<open>
  \<open>Resource._trigger_put\<close> with \<open>Resource._do_put\<close>: only the head of the put queue is tried
  (\<open>_do_put\<close> returns \<open>None\<close>, which ends the loop); it is granted when fewer than \<open>capacity\<close>
  users hold the resource, and its request event is then scheduled.
\<close>

definition trigger_put :: "sim \<Rightarrow> sim" where
  "trigger_put s =
     (case put_queue (agent (cc s)) of
        [] \<Rightarrow> s
      | h # rest \<Rightarrow>
          if int (length (users (agent (cc s)))) < capacity (agent (cc s))
          then schedule (RequestEv h) NORMAL 0
                 (s\<lparr>cc := (cc s)\<lparr>agent := (agent (cc s))\<lparr>users := users (agent (cc s)) @ [h],
                                                          put_queue := rest\<rparr>\<rparr>\<rparr>)
          else s)"

text \<open>\<open>Resource.request()\<close> by customer \<open>i\<close>: enqueue, then \<open>_trigger_put\<close>.\<close>

definition request :: "nat \<Rightarrow> sim \<Rightarrow> sim" where
  "request i s =
     trigger_put
       (s\<lparr>cc := (cc s)\<lparr>agent := (agent (cc s))\<lparr>put_queue := put_queue (agent (cc s)) @ [i]\<rparr>\<rparr>\<rparr>)"

text \<open>
  \<open>Resource.release(request)\<close>: \<open>_do_get\<close> removes the request from \<open>users\<close> (if it is
  there) and the release event is scheduled; its callback is \<open>_trigger_put\<close>. A release
  leaves the get queue as soon as it has entered it, so the get queue is left out.
\<close>

definition release :: "nat \<Rightarrow> sim \<Rightarrow> sim" where
  "release i s =
     schedule (ReleaseEv i) NORMAL 0
       (s\<lparr>cc := (cc s)\<lparr>agent := (agent (cc s))\<lparr>users := remove1 i (users (agent (cc s)))\<rparr>\<rparr>\<rparr>)"

subsection \<open>The processes\<close>

text \<open>
  The loop of \<open>setup\<close> from its head to the next \<open>yield\<close> (lines 52 to 54); when the
  condition fails the generator returns and its process event is scheduled. The quotient
  \<open>arrival_rate_per_hour / 60\<close> is exact here. In the program it is a quotient of doubles,
  which is zero also for a rate that is not zero but so small that the quotient underflows;
  \<open>expovariate\<close> then raises \<open>ZeroDivisionError\<close> as it does for rate \<open>0\<close>, where the
  model goes on to the timeout. For a negative rate the theorems below therefore say only
  that an exception is raised, not which.
\<close>

definition setup_loop :: "real \<Rightarrow> sim \<Rightarrow> error + sim" where
  "setup_loop arrival_rate_per_hour s =
     (if now s < SIM_HOURS * 60 then
        (case expovariate (arrival_rate_per_hour / 60) (rng s) of
           Inl e \<Rightarrow> Inl e
         | Inr (inter_arrival, g) \<Rightarrow> timeout inter_arrival SetupTimeout (s\<lparr>rng := g\<rparr>))
      else Inr (schedule SetupDone NORMAL 0 s))"

text \<open>
  What the callbacks of an event do: the process the event resumes runs to its next \<open>yield\<close>.
  \<^item> \<open>InitSetup\<close>: \<open>setup\<close> starts (line 51) and runs to its first timeout.
  \<^item> \<open>SetupTimeout\<close>: line 55 starts the next customer (an urgent \<open>Initialize\<close> event at the
    current time), line 56 counts it, and the loop goes round.
  \<^item> \<open>InitCustomer i\<close>: lines 40 to 42, the arrival time and the request.
  \<^item> \<open>RequestEv i\<close>: lines 43 to 46, the wait is recorded and the \<open>serve\<close> process started;
    the event's other callback, \<open>_trigger_get\<close>, finds the get queue empty.
  \<^item> \<open>InitServe i\<close>: lines 36 and 37, the service time is drawn and waited for.
  \<^item> \<open>ServeTimeout i\<close>: \<open>serve\<close> returns; its process event will resume the customer.
  \<^item> \<open>ServeDone i\<close>: lines 47 and 48, then the \<open>with\<close> block is left, which releases the
    agent, and \<open>customer\<close> returns.
  \<^item> \<open>ReleaseEv i\<close>: \<open>_trigger_put\<close>.
  \<^item> \<open>CustomerDone i\<close>, \<open>SetupDone\<close>: no process waits for them.

  An exception raised inside a process makes \<open>env.run\<close> raise it; the model returns it at
  the place where it is raised.
\<close>

fun fire :: "real \<Rightarrow> event \<Rightarrow> sim \<Rightarrow> error + sim" where
  "fire rate InitSetup s = setup_loop rate s"
| "fire rate SetupTimeout s =
     setup_loop rate
       ((schedule (InitCustomer (customer_id s)) URGENT 0 s)\<lparr>customer_id := customer_id s + 1\<rparr>)"
| "fire rate (InitCustomer i) s =
     Inr (request i (s\<lparr>arrival_time := (arrival_time s)(i := now s)\<rparr>))"
| "fire rate (RequestEv i) s =
     Inr (schedule (InitServe i) URGENT 0
            (s\<lparr>wait_times := wait_times s @ [now s - arrival_time s i],
               start_busy := (start_busy s)(i := now s)\<rparr>))"
| "fire rate (InitServe i) s =
     (case expovariate (1 / MEAN_SERVICE_MINUTES) (rng s) of
        Inl e \<Rightarrow> Inl e
      | Inr (service_time, g) \<Rightarrow> timeout service_time (ServeTimeout i) (s\<lparr>rng := g\<rparr>))"
| "fire rate (ServeTimeout i) s = Inr (schedule (ServeDone i) NORMAL 0 s)"
| "fire rate (ServeDone i) s =
     Inr (schedule (CustomerDone i) NORMAL 0
            (release i
               (s\<lparr>cc := (cc s)\<lparr>busy_times := busy_times (cc s) @ [(start_busy s i, now s)]\<rparr>\<rparr>)))"
| "fire rate (ReleaseEv i) s = Inr (trigger_put s)"
| "fire rate (CustomerDone i) s = Inr s"
| "fire rate SetupDone s = Inr s"
| "fire rate Until s = Inr s"

subsection \<open>The scheduler\<close>

text \<open>
  \<open>Environment.step\<close>: pop the first entry, set the clock, run the callbacks. The callback of
  \<open>Until\<close> raises \<open>StopSimulation\<close>, which ends \<open>run\<close>. An empty heap cannot end a run that
  has an \<open>until\<close>: SimPy raises \<open>RuntimeError\<close>.
\<close>

datatype outcome = Continue sim | Stop sim | Raise error

definition step :: "real \<Rightarrow> sim \<Rightarrow> outcome" where
  "step rate s =
     (case queue s of
        [] \<Rightarrow> Raise RuntimeError
      | (k, ev) # q \<Rightarrow>
          if ev = Until then Stop (s\<lparr>now := fst k, queue := q\<rparr>)
          else (case fire rate ev (s\<lparr>now := fst k, queue := q\<rparr>) of
                  Inl e \<Rightarrow> Raise e
                | Inr s' \<Rightarrow> Continue s'))"

text \<open>
  The loop \<open>while True: self.step()\<close> of \<open>Environment.run\<close>. It need not end (gaps of length
  \<open>0\<close> keep the clock where it is), so it runs on fuel: \<open>None\<close> is a run that has not
  returned within \<open>fuel\<close> steps.
\<close>

fun run_loop :: "nat \<Rightarrow> real \<Rightarrow> sim \<Rightarrow> (error + sim) option" where
  "run_loop 0 rate s = None"
| "run_loop (Suc fuel) rate s =
     (case step rate s of
        Raise e \<Rightarrow> Some (Inl e)
      | Stop s' \<Rightarrow> Some (Inr s')
      | Continue s' \<Rightarrow> run_loop fuel rate s')"

text \<open>\<open>env.run(until=...)\<close>: the time must lie in the future; the stop event is urgent.\<close>

definition run :: "nat \<Rightarrow> real \<Rightarrow> real \<Rightarrow> sim \<Rightarrow> (error + sim) option" where
  "run fuel rate until s =
     (if until \<le> now s then Some (Inl ValueError)
      else run_loop fuel rate (schedule Until URGENT (until - now s) s))"

subsection \<open>One replication\<close>

text \<open>\<open>simpy.Resource(env, capacity)\<close> raises \<open>ValueError\<close> unless \<open>capacity > 0\<close>.\<close>

definition Resource :: "int \<Rightarrow> error + resource" where
  "Resource cap =
     (if cap \<le> 0 then Inl ValueError
      else Inr \<lparr>capacity = cap, users = [], put_queue = []\<rparr>)"

definition CallCenter :: "int \<Rightarrow> error + call_center" where
  "CallCenter num_agents =
     (case Resource num_agents of
        Inl e \<Rightarrow> Inl e
      | Inr r \<Rightarrow> Inr \<lparr>agent = r, total_busy_time = 0, last_event_time = 0, busy_times = []\<rparr>)"

text \<open>Lines 61 to 65: seed, new environment, new call centre, start \<open>setup\<close>.\<close>

definition start_replication :: "(int \<Rightarrow> rng) \<Rightarrow> rng \<Rightarrow> int \<Rightarrow> int \<Rightarrow> error + sim" where
  "start_replication variates g num_agents r =
     (case CallCenter num_agents of
        Inl e \<Rightarrow> Inl e
      | Inr c \<Rightarrow>
          Inr (schedule InitSetup URGENT 0
                 \<lparr>now = 0, queue = [], eid = 0, rng = seed variates (RANDOM_SEED + r) g,
                  cc = c, wait_times = [], customer_id = 0,
                  arrival_time = (\<lambda>_. 0), start_busy = (\<lambda>_. 0)\<rparr>))"

text \<open>Lines 61 to 66: the replication up to the return of \<open>env.run\<close>.\<close>

definition simulate ::
  "nat \<Rightarrow> (int \<Rightarrow> rng) \<Rightarrow> rng \<Rightarrow> int \<Rightarrow> real \<Rightarrow> int \<Rightarrow> (error + sim) option" where
  "simulate fuel variates g num_agents rate r =
     (case start_replication variates g num_agents r of
        Inl e \<Rightarrow> Some (Inl e)
      | Inr s \<Rightarrow> run fuel rate (SIM_HOURS * 60) s)"

subsection \<open>Metrics\<close>

text \<open>\<open>statistics.mean\<close> and \<open>statistics.pstdev\<close>; both raise on an empty list.\<close>

definition mean :: "real list \<Rightarrow> error + real" where
  "mean xs =
     (if xs = [] then Inl StatisticsError else Inr (sum_list xs / real (length xs)))"

definition pstdev :: "real list \<Rightarrow> error + real" where
  "pstdev xs =
     (if xs = [] then Inl StatisticsError
      else let mu = sum_list xs / real (length xs)
           in Inr (sqrt (sum_list (map (\<lambda>x. (x - mu)\<^sup>2) xs) / real (length xs))))"

record result =
  avg_wait :: real
  utilization :: real
  num_served :: nat
  avg_queue_len :: real

text \<open>Lines 69 to 80.\<close>

definition metrics :: "int \<Rightarrow> sim \<Rightarrow> error + result" where
  "metrics num_agents s =
     (case (if wait_times s \<noteq> [] then mean (wait_times s) else Inr 0) of
        Inl e \<Rightarrow> Inl e
      | Inr aw \<Rightarrow>
          let served = length (wait_times s);
              busy = sum_list (map (\<lambda>(start, end). end - start) (busy_times (cc s)))
          in if real_of_int num_agents * SIM_HOURS * 60 = 0 then Inl ZeroDivisionError
             else Inr \<lparr>avg_wait = aw,
                       utilization = busy / (real_of_int num_agents * SIM_HOURS * 60),
                       num_served = served,
                       avg_queue_len =
                         (if wait_times s \<noteq> [] then sum_list (wait_times s) / SIM_HOURS else 0)\<rparr>)"

text \<open>The body of the loop over \<open>r\<close>; the state of the global generator is handed on.\<close>

definition replication ::
  "nat \<Rightarrow> (int \<Rightarrow> rng) \<Rightarrow> rng \<Rightarrow> int \<Rightarrow> real \<Rightarrow> int \<Rightarrow> (error + result \<times> rng) option" where
  "replication fuel variates g num_agents rate r =
     (case simulate fuel variates g num_agents rate r of
        None \<Rightarrow> None
      | Some (Inl e) \<Rightarrow> Some (Inl e)
      | Some (Inr s) \<Rightarrow>
          (case metrics num_agents s of
             Inl e \<Rightarrow> Some (Inl e)
           | Inr res \<Rightarrow> Some (Inr (res, rng s))))"

subsection \<open>Aggregation\<close>

record agg =
  avg_wait_mean :: real
  avg_wait_stdev :: real
  utilization_mean :: real
  utilization_stdev :: real
  num_served_mean :: real
  num_served_stdev :: real
  avg_queue_len_mean :: real
  avg_queue_len_stdev :: real

text \<open>The loop \<open>for r in range(replications)\<close>, collecting \<open>all_results\<close>.\<close>

fun replications_loop ::
  "nat \<Rightarrow> (int \<Rightarrow> rng) \<Rightarrow> int \<Rightarrow> real \<Rightarrow> int list \<Rightarrow> rng \<Rightarrow> result list
     \<Rightarrow> (error + result list) option" where
  "replications_loop fuel variates num_agents rate [] g all_results = Some (Inr all_results)"
| "replications_loop fuel variates num_agents rate (r # rs) g all_results =
     (case replication fuel variates g num_agents rate r of
        None \<Rightarrow> None
      | Some (Inl e) \<Rightarrow> Some (Inl e)
      | Some (Inr (res, g')) \<Rightarrow>
          replications_loop fuel variates num_agents rate rs g' (all_results @ [res]))"

text \<open>Lines 82 to 87: mean and population standard deviation of each of the four keys.\<close>

definition stats :: "real list \<Rightarrow> error + real \<times> real" where
  "stats vals =
     (case mean vals of
        Inl e \<Rightarrow> Inl e
      | Inr m \<Rightarrow> (case pstdev vals of Inl e \<Rightarrow> Inl e | Inr sd \<Rightarrow> Inr (m, sd)))"

definition aggregate :: "result list \<Rightarrow> error + agg" where
  "aggregate all_results =
     (case stats (map avg_wait all_results) of
        Inl e \<Rightarrow> Inl e
      | Inr (wm, ws) \<Rightarrow>
     (case stats (map utilization all_results) of
        Inl e \<Rightarrow> Inl e
      | Inr (um, us) \<Rightarrow>
     (case stats (map (\<lambda>res. real (num_served res)) all_results) of
        Inl e \<Rightarrow> Inl e
      | Inr (nm, ns) \<Rightarrow>
     (case stats (map avg_queue_len all_results) of
        Inl e \<Rightarrow> Inl e
      | Inr (qm, qs) \<Rightarrow>
          Inr \<lparr>avg_wait_mean = wm, avg_wait_stdev = ws,
               utilization_mean = um, utilization_stdev = us,
               num_served_mean = nm, num_served_stdev = ns,
               avg_queue_len_mean = qm, avg_queue_len_stdev = qs\<rparr>))))"

text \<open>
  \<open>run_scenario(num_agents, arrival_rate_per_hour, replications)\<close>; \<open>g\<close> is the state
  of the global generator when the function is called.
\<close>

definition run_scenario ::
  "nat \<Rightarrow> (int \<Rightarrow> rng) \<Rightarrow> rng \<Rightarrow> int \<Rightarrow> real \<Rightarrow> int \<Rightarrow> (error + agg) option" where
  "run_scenario fuel variates g num_agents arrival_rate_per_hour replications =
     (case replications_loop fuel variates num_agents arrival_rate_per_hour
             (map int [0..<nat replications]) g [] of
        None \<Rightarrow> None
      | Some (Inl e) \<Rightarrow> Some (Inl e)
      | Some (Inr all_results) \<Rightarrow> Some (aggregate all_results))"

text \<open>The call with the default \<open>replications=30\<close>, as the main program makes it.\<close>

definition run_scenario_default ::
  "nat \<Rightarrow> (int \<Rightarrow> rng) \<Rightarrow> rng \<Rightarrow> int \<Rightarrow> real \<Rightarrow> (error + agg) option" where
  "run_scenario_default fuel variates g num_agents arrival_rate_per_hour =
     run_scenario fuel variates g num_agents arrival_rate_per_hour 30"

section \<open>States of a run, invariants and inputs\<close>

subsection \<open>The states a run passes through\<close>

text \<open>
  \<open>entered s\<close> is the state in which \<open>env.run(until=SIM_HOURS * 60)\<close> enters its loop, and
  \<open>state_after j rate s\<close> the state \<open>j\<close> scheduler steps later; the state in which the run
  stops is the last one, and a run that raises has none.
\<close>

definition entered :: "sim \<Rightarrow> sim" where
  "entered s = schedule Until URGENT (SIM_HOURS * 60 - now s) s"

fun state_after :: "nat \<Rightarrow> real \<Rightarrow> sim \<Rightarrow> sim option" where
  "state_after 0 rate s = Some s"
| "state_after (Suc n) rate s =
     (case step rate s of
        Continue s' \<Rightarrow> state_after n rate s'
      | Stop s' \<Rightarrow> (if n = 0 then Some s' else None)
      | Raise e \<Rightarrow> None)"

subsection \<open>Reading the event heap\<close>

definition etime :: "entry \<Rightarrow> real" where
  "etime x = fst (fst x)"

definition eprio :: "entry \<Rightarrow> nat" where
  "eprio x = fst (snd (fst x))"

definition eident :: "entry \<Rightarrow> nat" where
  "eident x = snd (snd (fst x))"

text \<open>Pending release events, pending arrivals (customers spawned but not yet started).\<close>

fun is_release :: "event \<Rightarrow> bool" where
  "is_release (ReleaseEv i) = True"
| "is_release _ = False"

definition releases :: "entry list \<Rightarrow> nat" where
  "releases q = length (filter (\<lambda>x. is_release (snd x)) q)"

fun is_arrival :: "event \<Rightarrow> bool" where
  "is_arrival (InitCustomer i) = True"
| "is_arrival _ = False"

definition arrivals :: "entry list \<Rightarrow> nat" where
  "arrivals q = length (filter (\<lambda>x. is_arrival (snd x)) q)"

text \<open>
  A customer holds a unit of the resource from the grant of its request to its release: while
  its request event, or an event of its \<open>serve\<close> process, is pending. It is in service
  (between lines 44 and 47) while an event of its \<open>serve\<close> process is pending.
\<close>

fun holder :: "event \<Rightarrow> nat list" where
  "holder (RequestEv i) = [i]"
| "holder (InitServe i) = [i]"
| "holder (ServeTimeout i) = [i]"
| "holder (ServeDone i) = [i]"
| "holder _ = []"

fun in_service :: "event \<Rightarrow> bool" where
  "in_service (InitServe i) = True"
| "in_service (ServeTimeout i) = True"
| "in_service (ServeDone i) = True"
| "in_service _ = False"

definition holders :: "entry list \<Rightarrow> nat multiset" where
  "holders q = mset (concat (map (\<lambda>x. holder (snd x)) q))"

definition serving :: "entry list \<Rightarrow> nat" where
  "serving q = length (filter (\<lambda>x. in_service (snd x)) q)"

subsection \<open>Invariants of the scheduler loop\<close>

text \<open>The heap is in pop order and holds no event of the past.\<close>

definition clock_ok :: "sim \<Rightarrow> bool" where
  "clock_ok s = (sorted (map fst (queue s)) \<and> list_all (\<lambda>x. now s \<le> etime x) (queue s))"

text \<open>
  While the run goes on: the stop event is pending at the horizon with \<open>eid\<close> 1, the clock is
  before the horizon, and so is the end of every recorded busy interval.
\<close>

definition until_ok :: "sim \<Rightarrow> bool" where
  "until_ok s =
     (((SIM_HOURS * 60, URGENT, 1), Until) \<in> set (queue s) \<and>
      list_all (\<lambda>x. snd x \<noteq> Until \<longrightarrow> etime x < SIM_HOURS * 60 \<or> 1 < eident x) (queue s) \<and>
      list_all (\<lambda>x. snd x = Until \<longrightarrow> etime x = SIM_HOURS * 60) (queue s) \<and>
      2 \<le> eid s \<and> now s < SIM_HOURS * 60 \<and>
      list_all (\<lambda>b. snd b < SIM_HOURS * 60) (busy_times (cc s)))"

text \<open>When the run has stopped.\<close>

definition stopped_ok :: "sim \<Rightarrow> bool" where
  "stopped_ok s =
     (now s = SIM_HOURS * 60 \<and> list_all (\<lambda>x. SIM_HOURS * 60 \<le> etime x) (queue s) \<and>
      list_all (\<lambda>b. snd b < SIM_HOURS * 60) (busy_times (cc s)))"

text \<open>Recorded times: no customer's locals lie in the future, no recorded duration is negative.\<close>

definition times_ok :: "sim \<Rightarrow> bool" where
  "times_ok s =
     ((\<forall>i. arrival_time s i \<le> now s) \<and> (\<forall>i. start_busy s i \<le> now s) \<and>
      list_all (\<lambda>w. 0 \<le> w) (wait_times s) \<and>
      list_all (\<lambda>b. fst b \<le> snd b) (busy_times (cc s)))"

definition frame_ok :: "sim \<Rightarrow> bool" where
  "frame_ok s = (total_busy_time (cc s) = 0 \<and> last_event_time (cc s) = 0)"

text \<open>
  The pool: no more users than capacity; while requests wait, every free unit is matched by a
  pending release event; release events are processed at the time they are made.
\<close>

definition pool_ok :: "sim \<Rightarrow> bool" where
  "pool_ok s =
     (int (length (users (agent (cc s)))) \<le> capacity (agent (cc s)) \<and>
      (put_queue (agent (cc s)) \<noteq> [] \<longrightarrow>
         capacity (agent (cc s)) - int (length (users (agent (cc s)))) \<le> int (releases (queue s))) \<and>
      list_all (\<lambda>x. is_release (snd x) \<longrightarrow> etime x = now s) (queue s))"

text \<open>
  First come, first served. Customer ids count the arrivals, so the order of ids is the
  order of the requests: the waiting requests are queued in that order, every user requested
  before every waiting customer, and all of them before the customers still to arrive.
\<close>

definition res_fifo :: "resource \<Rightarrow> nat \<Rightarrow> bool" where
  "res_fifo r b =
     (sorted_wrt (<) (put_queue r) \<and>
      (\<forall>u\<in>set (users r). \<forall>w\<in>set (put_queue r). u < w) \<and>
      (\<forall>w\<in>set (users r) \<union> set (put_queue r). w < b))"

definition fifo_ok :: "sim \<Rightarrow> bool" where
  "fifo_ok s =
     (res_fifo (agent (cc s)) (customer_id s - arrivals (queue s)) \<and>
      arrivals (queue s) \<le> 1 \<and> arrivals (queue s) \<le> customer_id s \<and>
      list_all (\<lambda>x. is_arrival (snd x) \<longrightarrow> snd x = InitCustomer (customer_id s - 1)) (queue s) \<and>
      list_all (\<lambda>x. is_arrival (snd x) \<longrightarrow> etime x = now s \<and> eprio x = URGENT) (queue s) \<and>
      list_all (\<lambda>x. snd x = SetupTimeout \<longrightarrow> eprio x = NORMAL) (queue s))"

text \<open>
  The users are the customers holding a unit, and the customers whose wait is recorded are
  those whose busy interval is recorded and those in service.
\<close>

definition served_ok :: "sim \<Rightarrow> bool" where
  "served_ok s =
     (mset (users (agent (cc s))) = holders (queue s) \<and>
      length (wait_times s) = length (busy_times (cc s)) + serving (queue s))"

definition invar :: "int \<Rightarrow> sim \<Rightarrow> bool" where
  "invar n s =
     (capacity (agent (cc s)) = n \<and> clock_ok s \<and> times_ok s \<and> frame_ok s \<and> pool_ok s \<and>
      fifo_ok s \<and> served_ok s)"

subsection \<open>Mean and population standard deviation, as the specification words them\<close>

text \<open>
  \<open>m\<close> is the arithmetic mean of the sample \<open>xs\<close> and \<open>sd\<close> its population standard
  deviation: the squared deviations from the mean are divided by \<open>N\<close>, not by \<open>N - 1\<close>.
\<close>

definition is_mean_and_pstdev :: "real list \<Rightarrow> real \<Rightarrow> real \<Rightarrow> bool" where
  "is_mean_and_pstdev xs m sd =
     (xs \<noteq> [] \<and> m * real (length xs) = sum_list xs \<and> 0 \<le> sd \<and>
      sd\<^sup>2 * real (length xs) = (\<Sum>x\<leftarrow>xs. (x - m)\<^sup>2))"

subsection \<open>Streams of variates used as concrete inputs\<close>

text \<open>
  With \<open>arrival_rate_per_hour = 60\<close> a gap is the variate itself, and a service time is five
  times the variate. \<open>input_cut_off\<close>: one call at 470 whose service would end at 490.
  \<open>input_queueing\<close>: calls at 10 and 15, served for 10 and 5 minutes. \<open>input_zero_service\<close>:
  one call at 10 with service time 0. \<open>input_one_call\<close>: one call at 10 served for 10 minutes.
  \<open>input_no_call\<close>: the first call would come at 1000.
\<close>

definition input_cut_off :: "int \<Rightarrow> rng" where
  "input_cut_off a = 470 ## 100 ## 4 ## sconst 1"

definition input_queueing :: "int \<Rightarrow> rng" where
  "input_queueing a = 10 ## 5 ## 2 ## 1000 ## 1 ## sconst 1"

definition input_zero_service :: "int \<Rightarrow> rng" where
  "input_zero_service a = 10 ## 1000 ## 0 ## sconst 1"

definition input_one_call :: "int \<Rightarrow> rng" where
  "input_one_call a = 10 ## 1000 ## 2 ## sconst 1"

definition input_no_call :: "int \<Rightarrow> rng" where
  "input_no_call a = sconst 1000"

section \<open>Lemmas\<close>

subsection \<open>The event heap\<close>

lemma entry_simps [simp]:
  "etime ((t, p, e), v) = t" "eprio ((t, p, e), v) = p" "eident ((t, p, e), v) = e"
  by (simp_all add: etime_def eprio_def eident_def)

lemmas fire_defs = setup_loop_def expovariate_def timeout_def schedule_def trigger_put_def
  request_def release_def

lemma list_all_insort_key [simp]: "list_all P (insort_key f x xs) = (P x \<and> list_all P xs)"
  by (auto simp: list_all_iff set_insort_key)

lemma pop_time: "sorted (map fst ((k, ev) # q)) \<Longrightarrow> list_all (\<lambda>x. fst k \<le> etime x) q"
  by (auto simp: list_all_iff etime_def less_eq_prod_def)

subsection \<open>Every invariant is kept by the callbacks of the popped event\<close>

lemma clock_ok_fire:
  assumes "clock_ok s" "queue s = (k, ev) # q"
    "fire rate ev (s\<lparr>now := fst k, queue := q\<rparr>) = Inr s'"
  shows "clock_ok s'"
proof -
  have q: "sorted (map fst q)" "list_all (\<lambda>x. fst k \<le> etime x) q"
    using assms(1,2) pop_time[of k ev q] by (auto simp: clock_ok_def)
  show ?thesis
    using assms(3) q
    by (cases ev)
      (auto simp: clock_ok_def fire_defs sorted_insort_key
        split: if_splits sum.splits list.splits prod.splits)
qed

lemma pop_before_until:
  assumes "sorted (map fst ((k, ev) # q))" "((h, URGENT, 1), Until) \<in> set q"
    "etime (k, ev) < h \<or> 1 < eident (k, ev)"
  shows "fst k < h"
proof -
  have "k \<le> (h, URGENT, 1)" using assms(1,2) by force
  then show ?thesis using assms(3)
    by (cases k) (auto simp: less_eq_prod_def URGENT_def)
qed

lemma until_ok_fire:
  assumes "until_ok s" "clock_ok s" "queue s = (k, ev) # q" "ev \<noteq> Until"
    "fire rate ev (s\<lparr>now := fst k, queue := q\<rparr>) = Inr s'"
  shows "until_ok s'"
proof -
  have u: "((SIM_HOURS * 60, URGENT, 1), Until) \<in> set q"
    using assms(1,3,4) by (auto simp: until_ok_def)
  have "etime (k, ev) < SIM_HOURS * 60 \<or> 1 < eident (k, ev)"
    using assms(1,3,4) by (simp add: until_ok_def)
  then have t: "fst k < SIM_HOURS * 60"
    using pop_before_until[of k ev q] u assms(2,3) by (simp add: clock_ok_def)
  have q: "list_all (\<lambda>x. snd x \<noteq> Until \<longrightarrow> etime x < SIM_HOURS * 60 \<or> 1 < eident x) q"
    "list_all (\<lambda>x. snd x = Until \<longrightarrow> etime x = SIM_HOURS * 60) q"
    "2 \<le> eid s" "list_all (\<lambda>b. snd b < SIM_HOURS * 60) (busy_times (cc s))"
    using assms(1,3) by (simp_all add: until_ok_def)
  show ?thesis
    using assms(5) u t q
    by (cases ev)
      (auto simp: until_ok_def fire_defs set_insort_key
        split: if_splits sum.splits list.splits prod.splits)
qed

lemma times_ok_fire:
  assumes "times_ok s" "clock_ok s" "queue s = (k, ev) # q"
    "fire rate ev (s\<lparr>now := fst k, queue := q\<rparr>) = Inr s'"
  shows "times_ok s'"
proof -
  have "now s \<le> fst k" using assms(2,3) by (simp add: clock_ok_def etime_def)
  then have a: "\<forall>i. arrival_time s i \<le> fst k" "\<forall>i. start_busy s i \<le> fst k"
    using assms(1) by (auto simp: times_ok_def intro: order_trans)
  have l: "list_all (\<lambda>w. 0 \<le> w) (wait_times s)"
    "list_all (\<lambda>b. fst b \<le> snd b) (busy_times (cc s))"
    using assms(1) by (simp_all add: times_ok_def)
  show ?thesis
    using assms(4) a l
    by (cases ev)
      (auto simp: times_ok_def fire_defs
        split: if_splits sum.splits list.splits prod.splits)
qed

lemma frame_ok_fire:
  assumes "frame_ok s"
    "fire rate ev (s\<lparr>now := t, queue := q\<rparr>) = Inr s'"
  shows "frame_ok s'"
  using assms
  by (cases ev)
    (auto simp: frame_ok_def fire_defs
      split: if_splits sum.splits list.splits prod.splits)

lemma releases_simps [simp]:
  "releases [] = 0"
  "releases (x # q) = (if is_release (snd x) then Suc (releases q) else releases q)"
  by (simp_all add: releases_def)

lemma releases_insort [simp]:
  "releases (insort_key f x q) = (if is_release (snd x) then Suc (releases q) else releases q)"
  by (induction q) auto

lemma pop_release_now:
  assumes "clock_ok s" "queue s = (k, ev) # q"
    "list_all (\<lambda>x. is_release (snd x) \<longrightarrow> etime x = now s) (queue s)"
  shows "list_all (\<lambda>x. is_release (snd x) \<longrightarrow> etime x = fst k) q"
proof -
  have "now s \<le> fst k" using assms(1,2) by (simp add: clock_ok_def etime_def)
  moreover have "list_all (\<lambda>x. fst k \<le> etime x) q"
    using assms(1,2) pop_time[of k ev q] by (simp add: clock_ok_def)
  ultimately show ?thesis using assms(2,3)
    unfolding list_all_iff by (metis order_antisym list.set_intros(2))
qed

lemma pool_ok_fire:
  assumes "pool_ok s" "clock_ok s" "queue s = (k, ev) # q"
    "fire rate ev (s\<lparr>now := fst k, queue := q\<rparr>) = Inr s'"
  shows "pool_ok s'"
proof -
  have r: "list_all (\<lambda>x. is_release (snd x) \<longrightarrow> etime x = fst k) q"
    using pop_release_now[OF assms(2,3)] assms(1) by (simp add: pool_ok_def)
  have c: "int (length (users (agent (cc s)))) \<le> capacity (agent (cc s))"
    "put_queue (agent (cc s)) \<noteq> [] \<longrightarrow>
       capacity (agent (cc s)) - int (length (users (agent (cc s))))
         \<le> int (if is_release ev then Suc (releases q) else releases q)"
    using assms(1,3) by (simp_all add: pool_ok_def)
  show ?thesis
    using assms(4) r c
    by (cases ev)
      (auto simp: pool_ok_def fire_defs length_remove1 append_eq_Cons_conv
        split: if_splits sum.splits list.splits prod.splits)
qed

lemma arrivals_simps [simp]:
  "arrivals [] = 0"
  "arrivals (x # q) = (if is_arrival (snd x) then Suc (arrivals q) else arrivals q)"
  by (simp_all add: arrivals_def)

lemma arrivals_insort [simp]:
  "arrivals (insort_key f x q) = (if is_arrival (snd x) then Suc (arrivals q) else arrivals q)"
  by (induction q) auto

lemma no_arrivals: "arrivals q = 0 \<Longrightarrow> list_all (\<lambda>x. is_arrival (snd x) \<longrightarrow> Q x) q"
  by (induction q) (auto split: if_splits)

text \<open>First come, first served: one lemma for each operation on the pool and the heap.\<close>

lemma res_fifo_grant:
  "res_fifo r b \<Longrightarrow> put_queue r = h # rest \<Longrightarrow>
   res_fifo (r\<lparr>users := users r @ [h], put_queue := rest\<rparr>) b"
  by (auto simp: res_fifo_def)

lemma res_fifo_enqueue:
  "res_fifo r b \<Longrightarrow> res_fifo (r\<lparr>put_queue := put_queue r @ [b]\<rparr>) (Suc b)"
  by (auto simp: res_fifo_def sorted_wrt_append less_Suc_eq)

lemma res_fifo_remove:
  "res_fifo r b \<Longrightarrow> res_fifo (r\<lparr>users := remove1 i (users r)\<rparr>) b"
  using set_remove1_subset[of i "users r"] by (auto simp: res_fifo_def)

lemma fifo_ok_schedule:
  assumes "fifo_ok s" "\<not> is_arrival ev" "ev = SetupTimeout \<longrightarrow> p = NORMAL"
  shows "fifo_ok (schedule ev p d s)"
  using assms by (simp add: fifo_ok_def schedule_def)

lemma fifo_ok_trigger_put: "fifo_ok s \<Longrightarrow> fifo_ok (trigger_put s)"
  by (auto simp: trigger_put_def fifo_ok_def schedule_def res_fifo_grant split: list.splits)

lemma fifo_ok_release: "fifo_ok s \<Longrightarrow> fifo_ok (release i s)"
  by (simp add: release_def fifo_ok_def schedule_def res_fifo_remove)

lemma fifo_ok_setup_loop: "fifo_ok s \<Longrightarrow> setup_loop rate s = Inr s' \<Longrightarrow> fifo_ok s'"
  by (auto simp: setup_loop_def expovariate_def timeout_def fifo_ok_def schedule_def
      split: if_splits)

lemma fifo_ok_spawn:
  assumes "fifo_ok s" "arrivals (queue s) = 0"
  shows "fifo_ok ((schedule (InitCustomer (customer_id s)) URGENT 0 s)
                   \<lparr>customer_id := customer_id s + 1\<rparr>)"
  using assms by (auto simp: fifo_ok_def schedule_def intro: no_arrivals)

lemma pop_arrival_now:
  assumes "clock_ok s" "queue s = (k, ev) # q"
    "list_all (\<lambda>x. is_arrival (snd x) \<longrightarrow> etime x = now s \<and> eprio x = URGENT) (queue s)"
  shows "list_all (\<lambda>x. is_arrival (snd x) \<longrightarrow> etime x = fst k \<and> eprio x = URGENT) q"
proof -
  have "now s \<le> fst k" using assms(1,2) by (simp add: clock_ok_def etime_def)
  moreover have "list_all (\<lambda>x. fst k \<le> etime x) q"
    using assms(1,2) pop_time[of k ev q] by (simp add: clock_ok_def)
  ultimately show ?thesis using assms(2,3)
    unfolding list_all_iff by (metis order_antisym list.set_intros(2))
qed

lemma pop_normal_no_arrivals:
  assumes "clock_ok s" "queue s = (k, ev) # q" "eprio (k, ev) = NORMAL"
    "list_all (\<lambda>x. is_arrival (snd x) \<longrightarrow> etime x = now s \<and> eprio x = URGENT) (queue s)"
  shows "arrivals q = 0"
proof -
  have n: "now s \<le> fst k" using assms(1,2) by (simp add: clock_ok_def etime_def)
  have "\<not> is_arrival (snd x)" if "x \<in> set q" for x
  proof
    assume a: "is_arrival (snd x)"
    have "k \<le> fst x" using assms(1,2) that by (auto simp: clock_ok_def)
    moreover have "etime x = now s" "eprio x = URGENT"
      using assms(2,4) that a by (auto simp: list_all_iff)
    ultimately show False using n assms(3)
      by (cases k; cases x)
        (auto simp: less_eq_prod_def URGENT_def NORMAL_def etime_def eprio_def)
  qed
  then show ?thesis
    by (simp add: arrivals_def filter_empty_conv)
qed

lemma fifo_ok_pop:
  assumes "fifo_ok s" "clock_ok s" "queue s = (k, ev) # q" "\<not> is_arrival ev"
  shows "fifo_ok (s\<lparr>now := fst k, queue := q\<rparr>)"
proof -
  have "list_all (\<lambda>x. is_arrival (snd x) \<longrightarrow> etime x = fst k \<and> eprio x = URGENT) q"
    using pop_arrival_now[OF assms(2,3)] assms(1) by (simp add: fifo_ok_def)
  then show ?thesis using assms(1,3,4) by (simp add: fifo_ok_def)
qed

lemma fifo_ok_arrive:
  assumes "fifo_ok s" "clock_ok s" "queue s = (k, InitCustomer i) # q"
  shows "fifo_ok (s\<lparr>now := fst k, queue := q, arrival_time := a,
            cc := (cc s)\<lparr>agent := (agent (cc s))\<lparr>put_queue := put_queue (agent (cc s)) @ [i]\<rparr>\<rparr>\<rparr>)"
proof -
  have q0: "arrivals q = 0" and i: "i = customer_id s - 1" and c: "0 < customer_id s"
    using assms(1,3) by (auto simp: fifo_ok_def)
  have "res_fifo (agent (cc s)) i"
    using assms(1,3) q0 i by (simp add: fifo_ok_def)
  then have "res_fifo ((agent (cc s))\<lparr>put_queue := put_queue (agent (cc s)) @ [i]\<rparr>) (customer_id s)"
    using res_fifo_enqueue[of "agent (cc s)" i] i c by simp
  moreover have "list_all (\<lambda>x. is_arrival (snd x) \<longrightarrow> etime x = fst k \<and> eprio x = URGENT) q"
    using pop_arrival_now[OF assms(2,3)] assms(1) by (simp add: fifo_ok_def)
  ultimately show ?thesis
    using assms(1,3) q0 by (simp add: fifo_ok_def)
qed

lemma fifo_ok_fire:
  assumes "fifo_ok s" "clock_ok s" "queue s = (k, ev) # q"
    "fire rate ev (s\<lparr>now := fst k, queue := q\<rparr>) = Inr s'"
  shows "fifo_ok s'"
proof (cases "is_arrival ev")
  case True
  then obtain i where ev: "ev = InitCustomer i" by (cases ev) auto
  have "fifo_ok (trigger_put (s\<lparr>now := fst k, queue := q,
            arrival_time := (arrival_time s)(i := fst k),
            cc := (cc s)\<lparr>agent := (agent (cc s))\<lparr>put_queue := put_queue (agent (cc s)) @ [i]\<rparr>\<rparr>\<rparr>))"
    using fifo_ok_arrive[OF assms(1,2)] assms(3) ev by (intro fifo_ok_trigger_put) simp
  then show ?thesis using assms(4) ev by (simp add: request_def)
next
  case False
  note p = fifo_ok_pop[OF assms(1,2,3) False]
  show ?thesis
  proof (cases ev)
    case SetupTimeout
    have "eprio (k, ev) = NORMAL"
      using assms(1,3) SetupTimeout by (simp add: fifo_ok_def)
    then have "arrivals q = 0"
      using pop_normal_no_arrivals[OF assms(2,3)] assms(1) by (simp add: fifo_ok_def)
    then have "fifo_ok ((schedule (InitCustomer (customer_id s)) URGENT 0 (s\<lparr>now := fst k, queue := q\<rparr>))
                   \<lparr>customer_id := customer_id s + 1\<rparr>)"
      using fifo_ok_spawn[OF p] by simp
    then show ?thesis using assms(4) SetupTimeout by (auto dest: fifo_ok_setup_loop)
  next
    case InitSetup
    then show ?thesis using assms(4) p by (auto dest: fifo_ok_setup_loop)
  next
    case (InitServe i)
    have "fifo_ok (s\<lparr>now := fst k, queue := q, rng := g\<rparr>)" for g
      using p by (simp add: fifo_ok_def)
    then show ?thesis using assms(4) InitServe
      by (auto simp: expovariate_def timeout_def fifo_ok_schedule split: if_splits)
  next
    case (ServeDone i)
    have "fifo_ok (s\<lparr>now := fst k, queue := q,
        cc := (cc s)\<lparr>busy_times := busy_times (cc s) @ [(start_busy s i, fst k)]\<rparr>\<rparr>)"
      using p by (simp add: fifo_ok_def)
    then show ?thesis using assms(4) ServeDone
      by (auto intro!: fifo_ok_schedule fifo_ok_release)
  next
    case (RequestEv i)
    have "fifo_ok (s\<lparr>now := fst k, queue := q,
        wait_times := wait_times s @ [fst k - arrival_time s i],
        start_busy := (start_busy s)(i := fst k)\<rparr>)"
      using p by (simp add: fifo_ok_def)
    then show ?thesis using assms(4) RequestEv
      by (auto intro!: fifo_ok_schedule)
  qed (use assms(4) p False in \<open>auto intro: fifo_ok_schedule fifo_ok_trigger_put\<close>)
qed

text \<open>Users and customers in service.\<close>

lemma holders_simps [simp]:
  "holders [] = {#}" "holders (x # q) = mset (holder (snd x)) + holders q"
  by (simp_all add: holders_def)

lemma holders_insort [simp]: "holders (insort_key f x q) = mset (holder (snd x)) + holders q"
  by (induction q) auto

lemma serving_simps [simp]:
  "serving [] = 0"
  "serving (x # q) = (if in_service (snd x) then Suc (serving q) else serving q)"
  by (simp_all add: serving_def)

lemma serving_insort [simp]:
  "serving (insort_key f x q) = (if in_service (snd x) then Suc (serving q) else serving q)"
  by (induction q) auto

lemma serving_le_holders: "serving q \<le> size (holders q)"
proof (induction q)
  case Nil
  then show ?case by simp
next
  case (Cons x q)
  then show ?case by (cases "snd x") auto
qed

lemma served_ok_fire:
  assumes "served_ok s" "queue s = (k, ev) # q"
    "fire rate ev (s\<lparr>now := fst k, queue := q\<rparr>) = Inr s'"
  shows "served_ok s'"
proof -
  have c: "mset (users (agent (cc s))) = mset (holder ev) + holders q"
    "length (wait_times s) = length (busy_times (cc s)) + (if in_service ev then Suc (serving q) else serving q)"
    using assms(1,2) by (simp_all add: served_ok_def)
  show ?thesis
    using assms(3) c
    by (cases ev)
      (auto simp: served_ok_def fire_defs
        split: if_splits sum.splits list.splits prod.splits)
qed

subsection \<open>The invariants along a run\<close>

lemma capacity_fire:
  "fire rate ev (s\<lparr>now := t, queue := q\<rparr>) = Inr s' \<Longrightarrow>
   capacity (agent (cc s')) = capacity (agent (cc s))"
  by (cases ev)
    (auto simp: fire_defs split: if_splits sum.splits list.splits prod.splits)

lemma invar_fire:
  assumes "invar n s" "queue s = (k, ev) # q"
    "fire rate ev (s\<lparr>now := fst k, queue := q\<rparr>) = Inr s'"
  shows "invar n s'"
  using assms capacity_fire[OF assms(3)] clock_ok_fire[OF _ assms(2,3)]
    times_ok_fire[OF _ _ assms(2,3)] frame_ok_fire[OF _ assms(3)]
    pool_ok_fire[OF _ _ assms(2,3)] fifo_ok_fire[OF _ _ assms(2,3)]
    served_ok_fire[OF _ assms(2,3)]
  by (simp add: invar_def)

lemma step_Continue:
  assumes "step rate s = Continue s'"
  obtains k ev q where "queue s = (k, ev) # q" "ev \<noteq> Until"
    "fire rate ev (s\<lparr>now := fst k, queue := q\<rparr>) = Inr s'"
  using assms by (auto simp: step_def split: list.splits if_splits sum.splits)

lemma step_Stop:
  assumes "step rate s = Stop s'"
  obtains k q where "queue s = (k, Until) # q" "s' = s\<lparr>now := fst k, queue := q\<rparr>"
  using assms by (auto simp: step_def split: list.splits if_splits sum.splits)

lemma invar_step:
  assumes "invar n s" "until_ok s" "step rate s = Continue s'"
  shows "invar n s' \<and> until_ok s'"
proof -
  from assms(3) obtain k ev q where q: "queue s = (k, ev) # q" "ev \<noteq> Until"
    "fire rate ev (s\<lparr>now := fst k, queue := q\<rparr>) = Inr s'"
    by (rule step_Continue)
  have "clock_ok s" using assms(1) by (simp add: invar_def)
  then show ?thesis
    using invar_fire[OF assms(1) q(1,3)] until_ok_fire[OF assms(2) _ q] by simp
qed

lemma invar_stop:
  assumes "invar n s" "until_ok s" "step rate s = Stop s'"
  shows "invar n s' \<and> stopped_ok s'"
proof -
  from assms(3) obtain k q where q: "queue s = (k, Until) # q" "s' = s\<lparr>now := fst k, queue := q\<rparr>"
    by (rule step_Stop)
  have f: "fire rate Until (s\<lparr>now := fst k, queue := q\<rparr>) = Inr s'"
    using q(2) by simp
  have c: "clock_ok s" using assms(1) by (simp add: invar_def)
  have "fst k = SIM_HOURS * 60"
    using assms(2) q(1) by (simp add: until_ok_def etime_def)
  moreover have "list_all (\<lambda>x. fst k \<le> etime x) q"
    using c q(1) pop_time[of k Until q] by (simp add: clock_ok_def)
  ultimately have "stopped_ok s'"
    using assms(2) q by (simp add: stopped_ok_def until_ok_def)
  then show ?thesis
    using invar_fire[OF assms(1) q(1) f] by simp
qed

lemma invar_state_after:
  "invar n s \<Longrightarrow> until_ok s \<Longrightarrow> state_after j rate s = Some s' \<Longrightarrow> invar n s'"
proof (induction j arbitrary: s)
  case 0
  then show ?case by simp
next
  case (Suc j)
  show ?case
  proof (cases "step rate s")
    case (Continue s1)
    then show ?thesis
      using Suc.prems Suc.IH[of s1] invar_step[OF Suc.prems(1,2) Continue] by simp
  next
    case (Stop s1)
    then show ?thesis
      using Suc.prems invar_stop[OF Suc.prems(1,2) Stop] by (simp split: if_splits)
  next
    case (Raise e)
    then show ?thesis using Suc.prems by simp
  qed
qed

lemma invar_run_loop:
  "invar n s \<Longrightarrow> until_ok s \<Longrightarrow> run_loop fuel rate s = Some (Inr s') \<Longrightarrow>
   invar n s' \<and> stopped_ok s'"
proof (induction fuel arbitrary: s)
  case 0
  then show ?case by simp
next
  case (Suc fuel)
  show ?case
  proof (cases "step rate s")
    case (Continue s1)
    then show ?thesis
      using Suc.prems Suc.IH[of s1] invar_step[OF Suc.prems(1,2) Continue] by simp
  next
    case (Stop s1)
    then show ?thesis
      using Suc.prems invar_stop[OF Suc.prems(1,2) Stop] by simp
  next
    case (Raise e)
    then show ?thesis using Suc.prems by simp
  qed
qed

subsection \<open>A replication from its start\<close>

lemma start_replication_Inr:
  assumes "start_replication variates g n r = Inr s0"
  shows "0 < n" "now s0 = 0"
    "s0 = schedule InitSetup URGENT 0
        \<lparr>now = 0, queue = [], eid = 0, rng = variates (RANDOM_SEED + r),
         cc = \<lparr>agent = \<lparr>capacity = n, users = [], put_queue = []\<rparr>,
               total_busy_time = 0, last_event_time = 0, busy_times = []\<rparr>,
         wait_times = [], customer_id = 0,
         arrival_time = (\<lambda>_. 0), start_busy = (\<lambda>_. 0)\<rparr>"
  using assms
  by (auto simp: start_replication_def CallCenter_def Resource_def seed_def schedule_def
      split: if_splits sum.splits)

lemma invar_entered:
  assumes "start_replication variates g n r = Inr s0"
  shows "invar n (entered s0) \<and> until_ok (entered s0)"
  using start_replication_Inr(1)[OF assms]
  unfolding start_replication_Inr(3)[OF assms]
  by (simp add: entered_def invar_def until_ok_def clock_ok_def times_ok_def frame_ok_def
      pool_ok_def fifo_ok_def res_fifo_def served_ok_def schedule_def SIM_HOURS_def
      URGENT_def NORMAL_def less_eq_prod_def)

lemma simulate_run_loop:
  assumes "start_replication variates g n r = Inr s0"
  shows "simulate fuel variates g n rate r = run_loop fuel rate (entered s0)"
  using assms start_replication_Inr(2)[OF assms]
  by (simp add: simulate_def run_def entered_def SIM_HOURS_def)

lemma simulate_Inr:
  assumes "simulate fuel variates g n rate r = Some (Inr s)"
  obtains s0 where "start_replication variates g n r = Inr s0"
    "run_loop fuel rate (entered s0) = Some (Inr s)"
proof (cases "start_replication variates g n r")
  case (Inl e)
  then show ?thesis using assms by (simp add: simulate_def)
next
  case (Inr s0)
  then show ?thesis using assms that simulate_run_loop[OF Inr] by simp
qed

lemma simulate_invar:
  assumes "simulate fuel variates g n rate r = Some (Inr s)"
  shows "invar n s \<and> stopped_ok s"
proof -
  from assms obtain s0 where s0: "start_replication variates g n r = Inr s0"
    "run_loop fuel rate (entered s0) = Some (Inr s)"
    by (rule simulate_Inr)
  show ?thesis
    using invar_run_loop[OF _ _ s0(2)] invar_entered[OF s0(1)] by blast
qed

subsection \<open>Evaluation, metrics and the loop over the replications\<close>

lemmas run_defs = simulate_def start_replication_def CallCenter_def Resource_def run_def
  schedule_def step_def setup_loop_def expovariate_def timeout_def trigger_put_def request_def
  release_def seed_def RANDOM_SEED_def SIM_HOURS_def MEAN_SERVICE_MINUTES_def URGENT_def
  NORMAL_def entered_def

lemmas metric_defs = replication_def metrics_def mean_def

lemmas agg_defs = run_scenario_default_def run_scenario_def aggregate_def stats_def pstdev_def

lemma replication_of_simulate:
  assumes "simulate fuel variates g n rate r = Some (Inr s)"
  shows "replication fuel variates g n rate r =
     Some (Inr (\<lparr>avg_wait = (if wait_times s = [] then 0
                               else sum_list (wait_times s) / real (length (wait_times s))),
                  utilization = (\<Sum>(start, end)\<leftarrow>busy_times (cc s). end - start)
                                / (real_of_int n * SIM_HOURS * 60),
                  num_served = length (wait_times s),
                  avg_queue_len = sum_list (wait_times s) / SIM_HOURS\<rparr>, rng s))"
proof -
  obtain s0 where "start_replication variates g n r = Inr s0"
    using assms by (rule simulate_Inr)
  then have "0 < n" by (rule start_replication_Inr(1))
  then show ?thesis
    using assms by (simp add: replication_def metrics_def mean_def SIM_HOURS_def)
qed

lemma replication_Inr:
  assumes "replication fuel variates g n rate r = Some (Inr (res, g'))"
  obtains s where "simulate fuel variates g n rate r = Some (Inr s)"
  using assms by (auto simp: replication_def split: option.splits sum.splits)

lemma replication_seeded:
  "replication fuel variates g n rate r = replication fuel variates g' n rate r"
  unfolding replication_def simulate_def start_replication_def seed_def by (rule refl)

lemma replications_loop_seeded:
  "replications_loop fuel variates n rate rs g acc = replications_loop fuel variates n rate rs g' acc"
proof (induction rs arbitrary: g g' acc)
  case Nil
  then show ?case by simp
next
  case (Cons r rs)
  show ?case
  proof (cases "replication fuel variates g n rate r")
    case None
    then show ?thesis using replication_seeded[of fuel variates g n rate r g'] by simp
  next
    case (Some out)
    then have o: "replication fuel variates g' n rate r = Some out"
      using replication_seeded[of fuel variates g n rate r g'] by simp
    show ?thesis
    proof (cases out)
      case (Inl e)
      then show ?thesis using Some o by simp
    next
      case (Inr p)
      then show ?thesis using Some o by (cases p) simp
    qed
  qed
qed

lemma run_loop_state_after:
  "run_loop fuel rate s = Some (Inr s') \<Longrightarrow> \<exists>j. state_after j rate s = Some s'"
proof (induction fuel arbitrary: s)
  case 0
  then show ?case by simp
next
  case (Suc fuel)
  show ?case
  proof (cases "step rate s")
    case (Continue s1)
    then obtain j where "state_after j rate s1 = Some s'"
      using Suc.prems Suc.IH[of s1] by auto
    then have "state_after (Suc j) rate s = Some s'" using Continue by simp
    then show ?thesis by blast
  next
    case (Stop s1)
    then have "state_after (Suc 0) rate s = Some s'" using Suc.prems by simp
    then show ?thesis by blast
  next
    case (Raise e)
    then show ?thesis using Suc.prems by simp
  qed
qed

lemma reachable_invar:
  assumes "start_replication variates g n r = Inr s0"
    "state_after j rate (entered s0) = Some s"
  shows "invar n s"
  using invar_state_after[OF _ _ assms(2)] invar_entered[OF assms(1)] by blast


lemma stats_Inr:
  assumes "stats xs = Inr (m, sd)"
  shows "is_mean_and_pstdev xs m sd"
proof -
  have ne: "xs \<noteq> []" and m: "m = sum_list xs / real (length xs)"
    and sd: "sd = sqrt ((\<Sum>x\<leftarrow>xs. (x - m)\<^sup>2) / real (length xs))"
    using assms by (auto simp: stats_def mean_def pstdev_def Let_def split: if_splits)
  have len: "0 < real (length xs)" using ne by simp
  have "0 \<le> (\<Sum>x\<leftarrow>xs. (x - m)\<^sup>2)" by (rule sum_list_nonneg) auto
  then have nn: "0 \<le> (\<Sum>x\<leftarrow>xs. (x - m)\<^sup>2) / real (length xs)" by simp
  have "sd\<^sup>2 = (\<Sum>x\<leftarrow>xs. (x - m)\<^sup>2) / real (length xs)"
    unfolding sd using nn by simp
  then have "sd\<^sup>2 * real (length xs) = (\<Sum>x\<leftarrow>xs. (x - m)\<^sup>2)"
    using len by simp
  moreover have "0 \<le> sd" unfolding sd using nn by simp
  moreover have "m * real (length xs) = sum_list xs" unfolding m using len by simp
  ultimately show ?thesis using ne by (simp add: is_mean_and_pstdev_def)
qed

lemma replications_loop_results:
  assumes "replications_loop fuel variates n rate rs g acc = Some (Inr results)"
  shows "\<exists>new. results = acc @ new \<and>
           list_all2 (\<lambda>r res. \<exists>g1. replication fuel variates g0 n rate r = Some (Inr (res, g1)))
             rs new"
  using assms
proof (induction rs arbitrary: g acc)
  case Nil
  then show ?case by simp
next
  case (Cons r rs)
  from Cons.prems obtain res g1 where
    r: "replication fuel variates g n rate r = Some (Inr (res, g1))" and
    l: "replications_loop fuel variates n rate rs g1 (acc @ [res]) = Some (Inr results)"
    by (auto split: option.splits sum.splits)
  from Cons.IH[OF l] obtain new where
    new: "results = (acc @ [res]) @ new"
      "list_all2 (\<lambda>r res. \<exists>g1. replication fuel variates g0 n rate r = Some (Inr (res, g1))) rs new"
    by blast
  have "replication fuel variates g0 n rate r = Some (Inr (res, g1))"
    using r replication_seeded[of fuel variates g0 n rate r g] by simp
  then show ?case using new by (intro exI[of _ "res # new"]) auto
qed

lemma replication_run:
  assumes "replication fuel variates g n rate r = Some (Inr (res, g1))"
  shows "\<exists>s0 s. start_replication variates g n r = Inr s0 \<and>
           rng s0 = variates (RANDOM_SEED + r) \<and>
           run_loop fuel rate (entered s0) = Some (Inr s) \<and> metrics n s = Inr res"
proof -
  obtain s where s: "simulate fuel variates g n rate r = Some (Inr s)"
    using assms by (rule replication_Inr)
  then have m: "metrics n s = Inr res"
    using assms by (auto simp: replication_def split: sum.splits)
  obtain s0 where s0: "start_replication variates g n r = Inr s0"
    "run_loop fuel rate (entered s0) = Some (Inr s)"
    using s by (rule simulate_Inr)
  have "rng s0 = variates (RANDOM_SEED + r)"
    by (subst start_replication_Inr(3)[OF s0(1)]) (simp add: schedule_def)
  then show ?thesis using s0 m by blast
qed
lemma arrivals_pos: "x \<in> set q \<Longrightarrow> is_arrival (snd x) \<Longrightarrow> 0 < arrivals q"
  by (induction q) auto

lemma releases_pos: "0 < releases q \<Longrightarrow> \<exists>x\<in>set q. is_release (snd x)"
  by (induction q) (auto split: if_splits)

lemma settled_no_release:
  assumes "list_all (\<lambda>x. is_release (snd x) \<longrightarrow> etime x = t) q" "list_all (\<lambda>x. t < etime x) q"
  shows "releases q = 0"
proof (rule ccontr)
  assume "releases q \<noteq> 0"
  then obtain x where "x \<in> set q" "is_release (snd x)"
    using releases_pos[of q] by auto
  then show False using assms by (auto simp: list_all_iff)
qed

lemma fifo_ok_arrival_later:
  assumes "fifo_ok s" "x \<in> set (queue s)" "snd x = InitCustomer i"
    "w \<in> set (users (agent (cc s))) \<union> set (put_queue (agent (cc s)))"
  shows "w < i"
proof -
  have "0 < arrivals (queue s)" using arrivals_pos[OF assms(2)] assms(3) by simp
  moreover have "i = customer_id s - 1"
    using assms(1,2,3) by (auto simp: fifo_ok_def list_all_iff)
  moreover have "w < customer_id s - arrivals (queue s)"
    using assms(1,4) by (auto simp: fifo_ok_def res_fifo_def)
  ultimately show ?thesis by simp
qed

section \<open>The claims\<close>

text \<open>
  C1, as stated, fails. One agent, sixty calls an hour, one call at 470 whose service would
  end at 490: the run stops at 480 with that service's timeout and the next arrival still
  pending; customer 0 holds the agent, its wait is recorded and its busy interval is not.
\<close>

theorem run_stops_at_horizon_counterexample:
  "(case simulate 10 input_cut_off (sconst 0) 1 60 0 of
      Some (Inr s) \<Rightarrow>
        now s = 480 \<and>
        queue s = [((490, NORMAL, 7), ServeTimeout 0), ((570, NORMAL, 4), SetupTimeout)] \<and>
        users (agent (cc s)) = [0] \<and> wait_times s = [0] \<and> busy_times (cc s) = []
    | _ \<Rightarrow> False)"
  by (simp add: run_defs input_cut_off_def eval_nat_numeral)

text \<open>
  C1, amended. \<open>env.run(until=SIM_HOURS * 60)\<close> stops the scheduler when the clock reaches
  the horizon: the run returns with the clock at the horizon, every event still pending is
  due at the horizon or later and is never processed, every recorded busy interval ended
  before the horizon, and the customers in service at that moment (those whose wait is
  recorded and whose busy interval is not) do not complete.
\<close>

theorem run_stops_at_horizon:
  assumes "simulate fuel variates g num_agents rate r = Some (Inr s)"
  shows "now s = SIM_HOURS * 60 \<and>
         list_all (\<lambda>x. SIM_HOURS * 60 \<le> etime x) (queue s) \<and>
         list_all (\<lambda>b. snd b < SIM_HOURS * 60) (busy_times (cc s)) \<and>
         length (busy_times (cc s)) + serving (queue s) = length (wait_times s)"
  using simulate_invar[OF assms] by (simp add: stopped_ok_def invar_def served_ok_def)

theorem run_stops_at_horizon_witness:
  "(case simulate 10 input_cut_off (sconst 0) 1 60 0 of
      Some (Inr s) \<Rightarrow>
        now s = SIM_HOURS * 60 \<and>
        list_all (\<lambda>x. SIM_HOURS * 60 \<le> etime x) (queue s) \<and>
        list_all (\<lambda>b. snd b < SIM_HOURS * 60) (busy_times (cc s)) \<and>
        length (busy_times (cc s)) + serving (queue s) = length (wait_times s) \<and>
        serving (queue s) = 1
    | _ \<Rightarrow> False)"
proof -
  obtain s where s: "simulate 10 input_cut_off (sconst 0) 1 60 0 = Some (Inr s)"
    "serving (queue s) = 1"
    by (simp add: run_defs input_cut_off_def eval_nat_numeral)
  show ?thesis
    using run_stops_at_horizon[OF s(1)] s by simp
qed

text \<open>
  C2, as stated, fails. On the same input the replication reports \<open>num_served = 1\<close>, yet no
  customer has completed service: no busy interval is recorded, customer 0 still holds the
  agent and the timeout of its service is pending.
\<close>

theorem num_served_counterexample:
  "(case simulate 10 input_cut_off (sconst 0) 1 60 0 of
      Some (Inr s) \<Rightarrow>
        replication 10 input_cut_off (sconst 0) 1 60 0 =
          Some (Inr (\<lparr>avg_wait = 0, utilization = 0, num_served = 1, avg_queue_len = 0\<rparr>, rng s)) \<and>
        busy_times (cc s) = [] \<and> users (agent (cc s)) = [0] \<and>
        queue s = [((490, NORMAL, 7), ServeTimeout 0), ((570, NORMAL, 4), SetupTimeout)]
    | _ \<Rightarrow> False)"
  by (simp add: metric_defs run_defs input_cut_off_def eval_nat_numeral)

text \<open>
  C2, amended. \<open>num_served\<close> is the number of recorded waits, that is, of customers granted
  an agent within the run: the customers that completed service (a busy interval is
  recorded) and those still in service when the run stops, of which there are at most
  \<open>num_agents\<close>.
\<close>

theorem num_served_counts_service_starts:
  assumes "simulate fuel variates g num_agents rate r = Some (Inr s)"
  shows "\<exists>res. replication fuel variates g num_agents rate r = Some (Inr (res, rng s)) \<and>
           num_served res = length (wait_times s) \<and>
           num_served res = length (busy_times (cc s)) + serving (queue s) \<and>
           int (serving (queue s)) \<le> num_agents"
proof -
  have i: "invar num_agents s" using simulate_invar[OF assms] by simp
  have "serving (queue s) \<le> size (holders (queue s))" by (rule serving_le_holders)
  also have "\<dots> = length (users (agent (cc s)))"
    using i by (simp add: invar_def served_ok_def flip: size_mset)
  finally have "int (serving (queue s)) \<le> num_agents"
    using i by (simp add: invar_def pool_ok_def)
  then show ?thesis
    using replication_of_simulate[OF assms] i by (simp add: invar_def served_ok_def)
qed

theorem num_served_counts_service_starts_witness:
  "(case simulate 10 input_cut_off (sconst 0) 1 60 0 of
      Some (Inr s) \<Rightarrow>
        length (wait_times s) = 1 \<and> length (busy_times (cc s)) = 0 \<and> serving (queue s) = 1 \<and>
        (\<exists>res. replication 10 input_cut_off (sconst 0) 1 60 0 = Some (Inr (res, rng s)) \<and>
           num_served res = 1)
    | _ \<Rightarrow> False)"
proof -
  obtain s where s: "simulate 10 input_cut_off (sconst 0) 1 60 0 = Some (Inr s)"
    "wait_times s = [0]" "busy_times (cc s) = []"
    by (simp add: run_defs input_cut_off_def eval_nat_numeral)
  show ?thesis
    using num_served_counts_service_starts[OF s(1)] s by auto
qed




text \<open>
  C4. For a fixed seed map and fixed scenario parameters, a replication gives the same
  result, and \<open>run_scenario\<close> the same aggregate, whatever the state \<open>g\<close> or \<open>g'\<close> of the
  global generator was when it started: each replication seeds the generator itself, and
  nothing else is shared between runs.
\<close>

theorem runs_are_reproducible:
  "replication fuel variates g num_agents rate r = replication fuel variates g' num_agents rate r \<and>
   run_scenario fuel variates g num_agents rate replications
     = run_scenario fuel variates g' num_agents rate replications"
  using replication_seeded[of fuel variates g num_agents rate r g']
    replications_loop_seeded[of fuel variates num_agents rate _ g "[]" g']
  by (simp add: run_scenario_def)

text \<open>
  C5, as stated, fails. One agent, calls at 10 and 15, the first served until 20. Nine steps
  into the run, at time 20, customer 0 has left the \<open>with\<close> block: the pool has no user,
  customer 1 is still in the wait queue, and the release event that will grant it the agent
  is pending.
\<close>

theorem pool_invariant_counterexample:
  "(case start_replication input_queueing (sconst 0) 1 0 of
      Inr s0 \<Rightarrow>
        (case state_after 9 60 (entered s0) of
           Some s \<Rightarrow>
             now s = 20 \<and> capacity (agent (cc s)) = 1 \<and> users (agent (cc s)) = [] \<and>
             put_queue (agent (cc s)) = [1] \<and> busy_times (cc s) = [(10, 20)]
         | None \<Rightarrow> False)
    | Inl e \<Rightarrow> False)"
  by (simp add: run_defs input_queueing_def eval_nat_numeral)

text \<open>
  C5, amended. In every state a replication's run passes through, the pool has at most
  \<open>capacity = num_agents\<close> users; the wait queue is non-empty only when the number of
  users equals the capacity or a release event is pending, and a pending release event is
  due at the current time (SimPy hands a freed unit to the head of the queue when it
  processes that event, at the same virtual time), so that the queue is non-empty only at
  full capacity whenever every pending event lies in the future; and requests are granted
  first come, first served: the queue is in the order of arrival, every user arrived before
  every waiting customer, and both before every customer still to start.
\<close>

theorem pool_invariant:
  assumes "start_replication variates g num_agents r = Inr s0"
    and "state_after j rate (entered s0) = Some s"
  shows "capacity (agent (cc s)) = num_agents \<and>
         int (length (users (agent (cc s)))) \<le> capacity (agent (cc s)) \<and>
         (put_queue (agent (cc s)) \<noteq> [] \<longrightarrow>
            int (length (users (agent (cc s)))) = capacity (agent (cc s)) \<or>
            0 < releases (queue s)) \<and>
         list_all (\<lambda>x. is_release (snd x) \<longrightarrow> etime x = now s) (queue s) \<and>
         (put_queue (agent (cc s)) \<noteq> [] \<and> list_all (\<lambda>x. now s < etime x) (queue s) \<longrightarrow>
            int (length (users (agent (cc s)))) = capacity (agent (cc s))) \<and>
         sorted_wrt (<) (put_queue (agent (cc s))) \<and>
         (\<forall>u\<in>set (users (agent (cc s))). \<forall>w\<in>set (put_queue (agent (cc s))). u < w) \<and>
         (\<forall>w\<in>set (users (agent (cc s))) \<union> set (put_queue (agent (cc s))).
            \<forall>x\<in>set (queue s). \<forall>i. snd x = InitCustomer i \<longrightarrow> w < i)"
proof -
  have i: "invar num_agents s" by (rule reachable_invar[OF assms])
  then have p: "pool_ok s" and f: "fifo_ok s" by (simp_all add: invar_def)
  have "releases (queue s) = 0" if "list_all (\<lambda>x. now s < etime x) (queue s)"
    using settled_no_release[OF _ that] p by (simp add: pool_ok_def)
  moreover have "\<forall>w\<in>set (users (agent (cc s))) \<union> set (put_queue (agent (cc s))).
            \<forall>x\<in>set (queue s). \<forall>i. snd x = InitCustomer i \<longrightarrow> w < i"
    using fifo_ok_arrival_later[OF f] by blast
  ultimately show ?thesis
    using i by (auto simp: invar_def pool_ok_def fifo_ok_def res_fifo_def)
qed

theorem pool_invariant_witness:
  "(case start_replication input_queueing (sconst 0) 1 0 of
      Inr s0 \<Rightarrow>
        (case state_after 7 60 (entered s0) of
           Some s \<Rightarrow>
             now s = 15 \<and> users (agent (cc s)) = [0] \<and> put_queue (agent (cc s)) = [1] \<and>
             capacity (agent (cc s)) = 1 \<and> releases (queue s) = 0 \<and>
             list_all (\<lambda>x. now s < etime x) (queue s) \<and>
             int (length (users (agent (cc s)))) = capacity (agent (cc s)) \<and>
             sorted_wrt (<) (put_queue (agent (cc s)))
         | None \<Rightarrow> False)
    | Inl e \<Rightarrow> False)"
proof -
  obtain s0 where s0: "start_replication input_queueing (sconst 0) 1 0 = Inr s0"
    by (simp add: run_defs)
  obtain s where s: "state_after 7 60 (entered s0) = Some s"
    "now s = 15" "users (agent (cc s)) = [0]" "put_queue (agent (cc s)) = [1]"
    "releases (queue s) = 0" "list_all (\<lambda>x. now s < etime x) (queue s)"
    using s0 by (auto simp: run_defs input_queueing_def eval_nat_numeral)
  show ?thesis
    using pool_invariant[OF s0 s(1)] s0 s by simp
qed

text \<open>
  C6. Whenever the run of a replication returns, the metrics are computed without an
  exception, and \<open>avg_wait\<close> is the arithmetic mean of the recorded waits, or \<open>0\<close> when no
  wait was recorded.
\<close>

theorem avg_wait_is_mean_or_zero:
  assumes "simulate fuel variates g num_agents rate r = Some (Inr s)"
  shows "\<exists>res. replication fuel variates g num_agents rate r = Some (Inr (res, rng s)) \<and>
           avg_wait res = (if wait_times s = [] then 0
                           else sum_list (wait_times s) / real (length (wait_times s)))"
  using replication_of_simulate[OF assms] by simp

theorem avg_wait_is_mean_or_zero_witness:
  "(case simulate 20 input_queueing (sconst 0) 1 60 0 of
      Some (Inr s) \<Rightarrow> wait_times s = [0, 5] \<and>
        (\<exists>res. replication 20 input_queueing (sconst 0) 1 60 0 = Some (Inr (res, rng s)) \<and>
           avg_wait res = 5 / 2)
    | _ \<Rightarrow> False) \<and>
   (case simulate 20 input_no_call (sconst 0) 1 60 0 of
      Some (Inr s) \<Rightarrow> wait_times s = [] \<and>
        (\<exists>res. replication 20 input_no_call (sconst 0) 1 60 0 = Some (Inr (res, rng s)) \<and>
           avg_wait res = 0)
    | _ \<Rightarrow> False)"
proof -
  obtain s where s: "simulate 20 input_queueing (sconst 0) 1 60 0 = Some (Inr s)"
    "wait_times s = [0, 5]"
    by (simp add: run_defs input_queueing_def eval_nat_numeral)
  obtain t where t: "simulate 20 input_no_call (sconst 0) 1 60 0 = Some (Inr t)"
    "wait_times t = []"
    by (simp add: run_defs input_no_call_def eval_nat_numeral)
  show ?thesis
    using avg_wait_is_mean_or_zero[OF s(1)] avg_wait_is_mean_or_zero[OF t(1)] s t by simp
qed

text \<open>
  C7. Whenever the run of a replication returns, \<open>avg_queue_len\<close> is the sum of the recorded
  waits divided by \<open>SIM_HOURS\<close>, that is, by 8.
\<close>

theorem avg_queue_len_is_sum_over_hours:
  assumes "simulate fuel variates g num_agents rate r = Some (Inr s)"
  shows "\<exists>res. replication fuel variates g num_agents rate r = Some (Inr (res, rng s)) \<and>
           avg_queue_len res = sum_list (wait_times s) / SIM_HOURS \<and>
           avg_queue_len res = sum_list (wait_times s) / 8"
  using replication_of_simulate[OF assms] by (simp add: SIM_HOURS_def)

theorem avg_queue_len_is_sum_over_hours_witness:
  "(case simulate 20 input_queueing (sconst 0) 1 60 0 of
      Some (Inr s) \<Rightarrow> sum_list (wait_times s) = 5 \<and>
        (\<exists>res. replication 20 input_queueing (sconst 0) 1 60 0 = Some (Inr (res, rng s)) \<and>
           avg_queue_len res = 5 / 8)
    | _ \<Rightarrow> False)"
proof -
  obtain s where s: "simulate 20 input_queueing (sconst 0) 1 60 0 = Some (Inr s)"
    "wait_times s = [0, 5]"
    by (simp add: run_defs input_queueing_def eval_nat_numeral)
  show ?thesis
    using avg_queue_len_is_sum_over_hours[OF s(1)] s by auto
qed

text \<open>
  C8. A call of \<open>run_scenario\<close> with the default number of replications that returns an
  aggregate has run 30 replications; replication \<open>r\<close> started from the generator state of
  seed \<open>42 + r\<close>, and its result is the metrics of the state its run stopped in; for each
  of the four metrics the aggregate holds the arithmetic mean and the population standard
  deviation (divisor \<open>N\<close>) of the 30 values.
\<close>

theorem aggregator_thirty_replications:
  assumes "run_scenario_default fuel variates g num_agents rate = Some (Inr a)"
  shows "\<exists>results. length results = 30 \<and>
     (\<forall>r<30. \<exists>s0 s. start_replication variates g num_agents (int r) = Inr s0 \<and>
          rng s0 = variates (42 + int r) \<and>
          run_loop fuel rate (entered s0) = Some (Inr s) \<and>
          metrics num_agents s = Inr (results ! r)) \<and>
     is_mean_and_pstdev (map avg_wait results) (avg_wait_mean a) (avg_wait_stdev a) \<and>
     is_mean_and_pstdev (map utilization results) (utilization_mean a) (utilization_stdev a) \<and>
     is_mean_and_pstdev (map (\<lambda>res. real (num_served res)) results)
       (num_served_mean a) (num_served_stdev a) \<and>
     is_mean_and_pstdev (map avg_queue_len results)
       (avg_queue_len_mean a) (avg_queue_len_stdev a)"
proof -
  from assms obtain results where
    l: "replications_loop fuel variates num_agents rate (map int [0..<30]) g [] = Some (Inr results)"
    and a: "aggregate results = Inr a"
    by (auto simp: run_scenario_default_def run_scenario_def split: option.splits sum.splits)
  from replications_loop_results[OF l, of g] have
    r: "list_all2 (\<lambda>r res. \<exists>g1. replication fuel variates g num_agents rate r = Some (Inr (res, g1)))
          (map int [0..<30]) results"
    by simp
  then have len: "length results = 30"
    by (auto dest: list_all2_lengthD)
  have each: "\<exists>s0 s. start_replication variates g num_agents (int i) = Inr s0 \<and>
          rng s0 = variates (42 + int i) \<and>
          run_loop fuel rate (entered s0) = Some (Inr s) \<and>
          metrics num_agents s = Inr (results ! i)" if "i < 30" for i
  proof -
    have n: "map int [0..<n] ! i = int i" if "i < n" for n
      using that by simp
    have "\<exists>g1. replication fuel variates g num_agents rate (map int [0..<30] ! i)
            = Some (Inr (results ! i, g1))"
      using r that unfolding list_all2_conv_all_nth by simp
    then obtain g1 where
      "replication fuel variates g num_agents rate (int i) = Some (Inr (results ! i, g1))"
      unfolding n[OF \<open>i < 30\<close>] by blast
    from replication_run[OF this] show ?thesis by (simp add: RANDOM_SEED_def)
  qed
  from a obtain wm ws um us nm ns qm qs where
    st: "stats (map avg_wait results) = Inr (wm, ws)"
      "stats (map utilization results) = Inr (um, us)"
      "stats (map (\<lambda>res. real (num_served res)) results) = Inr (nm, ns)"
      "stats (map avg_queue_len results) = Inr (qm, qs)"
    and av: "a = \<lparr>avg_wait_mean = wm, avg_wait_stdev = ws,
               utilization_mean = um, utilization_stdev = us,
               num_served_mean = nm, num_served_stdev = ns,
               avg_queue_len_mean = qm, avg_queue_len_stdev = qs\<rparr>"
    by (auto simp: aggregate_def split: sum.splits prod.splits)
  show ?thesis
    using len each stats_Inr[OF st(1)] stats_Inr[OF st(2)] stats_Inr[OF st(3)]
      stats_Inr[OF st(4)]
    unfolding av by (intro exI[of _ results]) simp
qed

theorem aggregator_thirty_replications_witness:
  "run_scenario_default 10 input_one_call (sconst 0) 1 60 =
     Some (Inr \<lparr>avg_wait_mean = 0, avg_wait_stdev = 0,
                utilization_mean = 1 / 48, utilization_stdev = 0,
                num_served_mean = 1, num_served_stdev = 0,
                avg_queue_len_mean = 0, avg_queue_len_stdev = 0\<rparr>) \<and>
   (\<exists>results :: result list. length results = 30 \<and>
      is_mean_and_pstdev (map utilization results) (1 / 48) 0 \<and>
      is_mean_and_pstdev (map (\<lambda>res. real (num_served res)) results) 1 0)"
proof -
  have h: "run_scenario_default 10 input_one_call (sconst 0) 1 60 =
     Some (Inr \<lparr>avg_wait_mean = 0, avg_wait_stdev = 0,
                utilization_mean = 1 / 48, utilization_stdev = 0,
                num_served_mean = 1, num_served_stdev = 0,
                avg_queue_len_mean = 0, avg_queue_len_stdev = 0\<rparr>)"
    by (simp add: agg_defs metric_defs run_defs input_one_call_def upt_conv_Cons
        eval_nat_numeral)
  from aggregator_thirty_replications[OF h] obtain results :: "result list" where
    "length results = 30"
    "is_mean_and_pstdev (map utilization results) (1 / 48) 0"
    "is_mean_and_pstdev (map (\<lambda>res. real (num_served res)) results) 1 0"
    by auto
  then show ?thesis using h by blast
qed

text \<open>
  C9, as stated, fails. A service time of 0 (\<open>random()\<close> returning \<open>0.0\<close>) gives a customer
  whose service ends when it starts.
\<close>

theorem service_interval_counterexample:
  "(case simulate 20 input_zero_service (sconst 0) 1 60 0 of
      Some (Inr s) \<Rightarrow> wait_times s = [0] \<and> busy_times (cc s) = [(10, 10)]
    | _ \<Rightarrow> False)"
  by (simp add: run_defs input_zero_service_def eval_nat_numeral)

text \<open>
  C9, amended. Whenever the run of a replication returns, every recorded wait is at least
  \<open>0\<close> and every recorded busy interval ends no earlier than it starts.
\<close>

theorem recorded_durations_not_negative:
  assumes "simulate fuel variates g num_agents rate r = Some (Inr s)"
  shows "list_all (\<lambda>w. 0 \<le> w) (wait_times s) \<and>
         list_all (\<lambda>b. fst b \<le> snd b) (busy_times (cc s))"
  using simulate_invar[OF assms] by (simp add: invar_def times_ok_def)

theorem recorded_durations_not_negative_witness:
  "(case simulate 20 input_queueing (sconst 0) 1 60 0 of
      Some (Inr s) \<Rightarrow>
        wait_times s = [0, 5] \<and> busy_times (cc s) = [(10, 20), (20, 25)] \<and>
        list_all (\<lambda>w. 0 \<le> w) (wait_times s) \<and>
        list_all (\<lambda>b. fst b \<le> snd b) (busy_times (cc s))
    | _ \<Rightarrow> False)"
proof -
  obtain s where s: "simulate 20 input_queueing (sconst 0) 1 60 0 = Some (Inr s)"
    "wait_times s = [0, 5]" "busy_times (cc s) = [(10, 20), (20, 25)]"
    by (simp add: run_defs input_queueing_def eval_nat_numeral)
  show ?thesis
    using recorded_durations_not_negative[OF s(1)] s by simp
qed

text \<open>
  C10. In every state a replication's run passes through, \<open>total_busy_time\<close> and
  \<open>last_event_time\<close> are \<open>0\<close>; the metrics do not read them; and the metrics of that state
  are computed without an exception, with \<open>utilization\<close> the sum of the recorded busy
  intervals' lengths over \<open>num_agents * SIM_HOURS * 60\<close>.
\<close>

theorem unused_fields_stay_zero:
  assumes "start_replication variates g num_agents r = Inr s0"
    and "state_after j rate (entered s0) = Some s"
  shows "total_busy_time (cc s) = 0 \<and> last_event_time (cc s) = 0 \<and>
         metrics num_agents (s\<lparr>cc := (cc s)\<lparr>total_busy_time := x, last_event_time := y\<rparr>\<rparr>)
           = metrics num_agents s \<and>
         (\<exists>res. metrics num_agents s = Inr res \<and>
            utilization res = (\<Sum>(start, end)\<leftarrow>busy_times (cc s). end - start)
                              / (real_of_int num_agents * SIM_HOURS * 60))"
proof -
  have n: "0 < num_agents" by (rule start_replication_Inr(1)[OF assms(1)])
  have "frame_ok s" using reachable_invar[OF assms] by (simp add: invar_def)
  then show ?thesis
    using n by (simp add: frame_ok_def metrics_def mean_def SIM_HOURS_def)
qed

theorem unused_fields_stay_zero_witness:
  "(case start_replication input_queueing (sconst 0) 1 0 of
      Inr s0 \<Rightarrow>
        (case state_after 18 60 (entered s0) of
           Some s \<Rightarrow>
             now s = 480 \<and> busy_times (cc s) = [(10, 20), (20, 25)] \<and>
             total_busy_time (cc s) = 0 \<and> last_event_time (cc s) = 0 \<and>
             metrics 1 (s\<lparr>cc := (cc s)\<lparr>total_busy_time := 7, last_event_time := 9\<rparr>\<rparr>) = metrics 1 s \<and>
             (\<exists>res. metrics 1 s = Inr res \<and> utilization res = 1 / 32)
         | None \<Rightarrow> False)
    | Inl e \<Rightarrow> False)"
proof -
  obtain s0 where s0: "start_replication input_queueing (sconst 0) 1 0 = Inr s0"
    by (simp add: run_defs)
  obtain s where s: "state_after 18 60 (entered s0) = Some s"
    "now s = 480" "busy_times (cc s) = [(10, 20), (20, 25)]"
    using s0 by (auto simp: run_defs input_queueing_def eval_nat_numeral)
  show ?thesis
    using unused_fields_stay_zero[OF s0 s(1), where x = 7 and y = 9] s0 s by (simp add: SIM_HOURS_def)
qed

end
